theory Spec2Isabelle
  imports Complex_Main "HOL-Library.Multiset"
begin

section \<open>JavaScript numbers\<close>

text \<open>
  The program is TypeScript; its numbers are IEEE doubles. They are modelled as the reals
  extended by the three special values the code tests for or produces (\<open>NaN\<close>,
  \<open>Infinity\<close>, \<open>-Infinity\<close>). Rounding of the binary representation and the sign of
  zero are not modelled: arithmetic on finite values is exact.
\<close>

datatype jsnum = NaN | NegInf | Fin real | PosInf

fun isNaN :: "jsnum \<Rightarrow> bool" where
  "isNaN NaN = True"
| "isNaN _ = False"

fun isFinite :: "jsnum \<Rightarrow> bool" where
  "isFinite (Fin _) = True"
| "isFinite _ = False"

text \<open>The relational operators: every comparison with \<open>NaN\<close> is false.\<close>

fun jlt :: "jsnum \<Rightarrow> jsnum \<Rightarrow> bool" where
  "jlt NaN _ = False"
| "jlt _ NaN = False"
| "jlt (Fin x) (Fin y) = (x < y)"
| "jlt NegInf NegInf = False"
| "jlt NegInf _ = True"
| "jlt _ NegInf = False"
| "jlt PosInf _ = False"
| "jlt _ PosInf = True"

fun jle :: "jsnum \<Rightarrow> jsnum \<Rightarrow> bool" where
  "jle NaN _ = False"
| "jle _ NaN = False"
| "jle (Fin x) (Fin y) = (x \<le> y)"
| "jle NegInf _ = True"
| "jle _ PosInf = True"
| "jle _ NegInf = False"
| "jle PosInf _ = False"

definition jgt :: "jsnum \<Rightarrow> jsnum \<Rightarrow> bool" where
  "jgt a b = jlt b a"

definition jge :: "jsnum \<Rightarrow> jsnum \<Rightarrow> bool" where
  "jge a b = jle b a"

text \<open>Sign of a number that is not \<open>NaN\<close>, used by multiplication and division.\<close>

fun jsign :: "jsnum \<Rightarrow> int" where
  "jsign NaN = 0"
| "jsign NegInf = -1"
| "jsign PosInf = 1"
| "jsign (Fin x) = (if x < 0 then -1 else if x = 0 then 0 else 1)"

definition inf_of_sign :: "int \<Rightarrow> jsnum" where
  "inf_of_sign s = (if s = 0 then NaN else if s < 0 then NegInf else PosInf)"

fun jmul :: "jsnum \<Rightarrow> jsnum \<Rightarrow> jsnum" where
  "jmul NaN _ = NaN"
| "jmul _ NaN = NaN"
| "jmul (Fin x) (Fin y) = Fin (x * y)"
| "jmul a b = inf_of_sign (jsign a * jsign b)"

fun jdiv :: "jsnum \<Rightarrow> jsnum \<Rightarrow> jsnum" where
  "jdiv NaN _ = NaN"
| "jdiv _ NaN = NaN"
| "jdiv (Fin x) (Fin y) = (if y = 0 then inf_of_sign (jsign (Fin x)) else Fin (x / y))"
| "jdiv (Fin x) _ = Fin 0"
| "jdiv a (Fin y) = inf_of_sign (jsign a * (if y < 0 then -1 else 1))"
| "jdiv _ _ = NaN"

text \<open>\<open>Math.round\<close>: the nearest integer, halves rounded towards \<open>+Infinity\<close>.\<close>

fun Math_round :: "jsnum \<Rightarrow> jsnum" where
  "Math_round (Fin x) = Fin (of_int \<lfloor>x + 1 / 2\<rfloor>)"
| "Math_round a = a"


section \<open>Competitor relevance\<close>

record relevance =
  commonCount :: nat
  commonRatio :: real
  relevanceScore :: real
  isRelevant :: bool

definition calculateCompetitorRelevance :: "string set \<Rightarrow> string list \<Rightarrow> real \<Rightarrow> relevance" where
  "calculateCompetitorRelevance baseKeywords competitorKeywords similarityScore =
     (let commonKeywords = filter (\<lambda>kw. kw \<in> baseKeywords) competitorKeywords;
          cnt = length commonKeywords;
          ratio = (if length competitorKeywords > 0
                   then real cnt / real (length competitorKeywords) else 0);
          score = (similarityScore * (6 / 10)) + (ratio * 100 * (4 / 10));
          rel = (cnt \<ge> 10 \<and> score > 50)
      in \<lparr>commonCount = cnt, commonRatio = ratio, relevanceScore = score, isRelevant = rel\<rparr>)"


section \<open>Duplication buckets\<close>

text \<open>
  \<open>normPct\<close> receives a field of a raw bucket. \<open>None\<close> stands for \<open>null\<close> and
  \<open>undefined\<close>; any other value is taken through \<open>Number\<close>, whose result is the
  argument of \<open>Some\<close>.
\<close>

definition normPct :: "jsnum option \<Rightarrow> jsnum" where
  "normPct v =
     (case v of
        None \<Rightarrow> NaN
      | Some n0 \<Rightarrow>
          if isNaN n0 then NaN
          else
            let n1 = (if jle n0 (Fin 1) then jmul n0 (Fin 100) else n0);
                n2 = (if jlt n1 (Fin 0) then Fin 0 else n1);
                n3 = (if jgt n2 (Fin 100) then Fin 100 else n2)
            in jdiv (Math_round (jmul n3 (Fin 100))) (Fin 100))"

text \<open>The nullish coalescing operator \<open>a ?? b\<close>.\<close>

definition nullish :: "'a option \<Rightarrow> 'a option \<Rightarrow> 'a option" where
  "nullish a b = (case a of None \<Rightarrow> b | Some x \<Rightarrow> Some x)"

record rawBucket =
  raw_percent_from :: "jsnum option"
  raw_from :: "jsnum option"
  raw_start :: "jsnum option"
  raw_percent_to :: "jsnum option"
  raw_to :: "jsnum option"
  raw_end :: "jsnum option"
  raw_pairs :: "jsnum option"
  raw_count :: "jsnum option"

text \<open>
  A normalised bucket. Its rank and its example pairs play no part in the classification and
  are left out, and so are the priority score (a rounded logarithm) and the label.
\<close>

record Bucket =
  percent_from :: jsnum
  percent_to :: jsnum
  pairs :: jsnum

text \<open>\<open>Number(b.pairs ?? b.count ?? 0) || 0\<close>: zero and \<open>NaN\<close> are falsy.\<close>

definition pairsOf :: "rawBucket \<Rightarrow> jsnum" where
  "pairsOf b =
     (let n = (case nullish (raw_pairs b) (raw_count b) of None \<Rightarrow> Fin 0 | Some x \<Rightarrow> x)
      in if isNaN n \<or> n = Fin 0 then Fin 0 else n)"

definition toBucket :: "rawBucket \<Rightarrow> Bucket" where
  "toBucket b =
     \<lparr>percent_from = normPct (nullish (nullish (raw_percent_from b) (raw_from b)) (raw_start b)),
      percent_to = normPct (nullish (nullish (raw_percent_to b) (raw_to b)) (raw_end b)),
      pairs = pairsOf b\<rparr>"

definition buckets :: "rawBucket list \<Rightarrow> Bucket list" where
  "buckets rawBuckets =
     filter (\<lambda>b. isFinite (percent_from b) \<and> isFinite (percent_to b)) (map toBucket rawBuckets)"

datatype severity = blocker | critical | high | info

definition crossesThreshold :: "jsnum \<Rightarrow> Bucket \<Rightarrow> bool" where
  "crossesThreshold threshold b = jge (percent_to b) threshold"

definition severityOf :: "jsnum \<Rightarrow> Bucket \<Rightarrow> severity" where
  "severityOf threshold b =
     (if jge (percent_to b) (Fin 95) then blocker
      else if jge (percent_to b) (Fin 92) then critical
      else if jge (percent_to b) threshold then high
      else info)"

record annotatedBucket =
  bucket :: Bucket
  isProblematic :: bool
  severity :: severity

definition annotated :: "jsnum \<Rightarrow> rawBucket list \<Rightarrow> annotatedBucket list" where
  "annotated threshold rawBuckets =
     map (\<lambda>b. \<lparr>bucket = b, isProblematic = crossesThreshold threshold b,
               severity = severityOf threshold b\<rparr>) (buckets rawBuckets)"

definition problemBuckets :: "jsnum \<Rightarrow> rawBucket list \<Rightarrow> annotatedBucket list" where
  "problemBuckets threshold rawBuckets = filter isProblematic (annotated threshold rawBuckets)"


section \<open>Sorting with a comparator\<close>

text \<open>
  \<open>Array.prototype.sort\<close> with a comparator \<open>cmp\<close>: \<open>a\<close> comes before \<open>b\<close> when
  \<open>cmp a b < 0\<close>, and elements that compare equal keep their order (the sort is stable).
  For a comparator that orders the elements consistently this fixes the result, which the
  stable insertion sort below computes.
\<close>

fun insert_js :: "('a \<Rightarrow> 'a \<Rightarrow> real) \<Rightarrow> 'a \<Rightarrow> 'a list \<Rightarrow> 'a list" where
  "insert_js cmp x [] = [x]"
| "insert_js cmp x (y # ys) = (if cmp x y \<le> 0 then x # y # ys else y # insert_js cmp x ys)"

definition sort_js :: "('a \<Rightarrow> 'a \<Rightarrow> real) \<Rightarrow> 'a list \<Rightarrow> 'a list" where
  "sort_js cmp xs = foldr (insert_js cmp) xs []"

text \<open>\<open>a || b\<close> on numbers, as in \<open>(a.x - b.x) || (b.y - a.y)\<close>: zero is falsy.\<close>

definition orElse :: "real \<Rightarrow> real \<Rightarrow> real" where
  "orElse a b = (if a \<noteq> 0 then a else b)"

text \<open>\<open>xs.slice(0, n)\<close>: a negative \<open>n\<close> counts from the end.\<close>

definition slice0 :: "int \<Rightarrow> 'a list \<Rightarrow> 'a list" where
  "slice0 n xs = (if n < 0 then take (length xs - nat (- n)) xs else take (nat n) xs)"

text \<open>\<open>Array.from(new Set(xs))\<close>: the distinct elements in order of first occurrence.\<close>

definition uniq :: "'a list \<Rightarrow> 'a list" where
  "uniq xs = rev (remdups (rev xs))"


section \<open>Keyword opportunities\<close>

text \<open>
  A keyword row of the provider. The fields read by the code are optional: \<open>None\<close> is an
  absent field. Keywords are strings and positions and volumes are JSON numbers, which
  are finite.
\<close>

record kwRow =
  kw_keyword :: "string option"
  kw_query :: "string option"
  kw_position :: "real option"
  kw_rank :: "real option"
  kw_volume :: "real option"
  kw_searchVolume :: "real option"

text \<open>\<open>a || b\<close> on an optional string: absent and empty strings are falsy.\<close>

definition orStr :: "string option \<Rightarrow> string \<Rightarrow> string" where
  "orStr a b = (case a of None \<Rightarrow> b | Some s \<Rightarrow> if s \<noteq> [] then s else b)"

text \<open>\<open>a || b\<close> on an optional number: absent and zero are falsy.\<close>

definition orNum :: "real option \<Rightarrow> real \<Rightarrow> real" where
  "orNum a b = (case a of None \<Rightarrow> b | Some x \<Rightarrow> if x \<noteq> 0 then x else b)"

text \<open>
  \<open>String.prototype.toLowerCase\<close> is the runtime's and follows Unicode; it is a parameter
  of the functions that use it. \<open>lowerASCII\<close> agrees with it on ASCII strings and is used
  to run the functions on such strings.
\<close>

definition lower_char :: "char \<Rightarrow> char" where
  "lower_char c =
     (case map_of (zip ''ABCDEFGHIJKLMNOPQRSTUVWXYZ'' ''abcdefghijklmnopqrstuvwxyz'') c of
        None \<Rightarrow> c
      | Some l \<Rightarrow> l)"

definition lowerASCII :: "string \<Rightarrow> string" where
  "lowerASCII s = map lower_char s"

definition keywordOf :: "(string \<Rightarrow> string) \<Rightarrow> kwRow \<Rightarrow> string" where
  "keywordOf toLowerCase kw = toLowerCase (orStr (kw_keyword kw) (orStr (kw_query kw) []))"

definition positionOf :: "kwRow \<Rightarrow> real" where
  "positionOf kw = orNum (kw_position kw) (orNum (kw_rank kw) 999)"

definition volumeOf :: "kwRow \<Rightarrow> real" where
  "volumeOf kw = orNum (kw_volume kw) (orNum (kw_searchVolume kw) 0)"

text \<open>The map built by the first loop; a later row of the same keyword overwrites.\<close>

definition baseKwMap :: "(string \<Rightarrow> string) \<Rightarrow> kwRow list \<Rightarrow> (string \<rightharpoonup> real)" where
  "baseKwMap toLowerCase baseKeywords =
     fold (\<lambda>kw m. if keywordOf toLowerCase kw \<noteq> []
                  then m(keywordOf toLowerCase kw \<mapsto> positionOf kw) else m)
       baseKeywords Map.empty"

text \<open>\<open>baseKwMap.get(keyword) || 999\<close>.\<close>

definition ourPositionOf :: "(string \<rightharpoonup> real) \<Rightarrow> string \<Rightarrow> real" where
  "ourPositionOf m k = orNum (m k) 999"

datatype priority = High | Medium | Low

text \<open>The emitted \<open>ourPosition\<close> field is a string or a number.\<close>

datatype strnum = Str string | Num real

text \<open>The label \<open>Non class\<close> followed by e acute, as UTF-8 bytes.\<close>

definition nonClasse :: string where
  "nonClasse = ''Non class'' @ [CHR 0xC3, CHR 0xA9]"

record opportunity =
  keyword :: string
  competitorHost :: string
  competitorPosition :: real
  ourPosition :: strnum
  volume :: real
  gap :: real
  priority :: priority

text \<open>The body of the second loop: the records one competitor row pushes (none or one).\<close>

definition pushed ::
  "(string \<Rightarrow> string) \<Rightarrow> (string \<rightharpoonup> real) \<Rightarrow> string \<Rightarrow> kwRow \<Rightarrow> opportunity list" where
  "pushed toLowerCase m host kw =
     (let k = keywordOf toLowerCase kw; cp = positionOf kw; vol = volumeOf kw in
      if k = [] then []
      else
        let ours = ourPositionOf m k in
        if cp \<le> 10 \<and> ours > 10 then
          [\<lparr>keyword = k, competitorHost = host, competitorPosition = cp,
            ourPosition = (if ours = 999 then Str nonClasse else Num ours),
            volume = vol, gap = ours - cp,
            priority = (if cp \<le> 3 then High else if cp \<le> 5 then Medium else Low)\<rparr>]
        else [])"

definition opportunity_cmp :: "opportunity \<Rightarrow> opportunity \<Rightarrow> real" where
  "opportunity_cmp a b =
     orElse (competitorPosition a - competitorPosition b) (volume b - volume a)"

definition findKeywordOpportunities ::
  "(string \<Rightarrow> string) \<Rightarrow> kwRow list \<Rightarrow> kwRow list \<Rightarrow> string \<Rightarrow> opportunity list" where
  "findKeywordOpportunities toLowerCase baseKeywords competitorKeywords host =
     sort_js opportunity_cmp
       (concat (map (pushed toLowerCase (baseKwMap toLowerCase baseKeywords) host)
                  competitorKeywords))"


section \<open>The remote data client\<close>

datatype json =
    JNull | JBool bool | JNumber real | JString string
  | JArray "json list" | JObject "(string \<times> json) list"

fun truthy :: "json \<Rightarrow> bool" where
  "truthy JNull = False"
| "truthy (JBool b) = b"
| "truthy (JNumber x) = (x \<noteq> 0)"
| "truthy (JString s) = (s \<noteq> [])"
| "truthy _ = True"

text \<open>
  \<open>FormattedResponse\<close>. The timestamp is the clock reading, in milliseconds; the
  \<open>key_count\<close> fields added for nested arrays are kept as a list of pairs.
\<close>

record FormattedResponse =
  fr_endpoint :: string
  fr_timestamp :: nat
  fr_rateLimitRemaining :: "int option"
  fr_data :: json
  fr_count :: "nat option"
  fr_key_counts :: "(string \<times> nat) list"

definition formatResponse :: "int option \<Rightarrow> nat \<Rightarrow> json \<Rightarrow> string \<Rightarrow> FormattedResponse" where
  "formatResponse rateLimitRemaining now d ep =
     \<lparr>fr_endpoint = ep, fr_timestamp = now, fr_rateLimitRemaining = rateLimitRemaining,
      fr_data = d,
      fr_count = (case d of JArray xs \<Rightarrow> Some (length xs) | _ \<Rightarrow> None),
      fr_key_counts =
        (case d of
           JObject kvs \<Rightarrow>
             concat (map (\<lambda>(k, v). case v of JArray xs \<Rightarrow> [(k @ ''_count'', length xs)]
                                      | _ \<Rightarrow> []) kvs)
         | _ \<Rightarrow> [])\<rparr>"

text \<open>
  Modelled from the spec: the cache is the \<open>node-cache\<close> package, which is not part of the
  repository. An entry holds the payload and the time it expires, the insertion time plus
  the TTL of 864,000 seconds; expiry is checked on read, and an expired entry is absent.
  Times are in milliseconds.
\<close>

definition stdTTL :: nat where
  "stdTTL = 864000"

type_synonym 'v node_cache = "string \<rightharpoonup> ('v \<times> nat)"

definition cache_get :: "nat \<Rightarrow> string \<Rightarrow> 'v node_cache \<Rightarrow> 'v option \<times> 'v node_cache" where
  "cache_get now k c =
     (case c k of
        None \<Rightarrow> (None, c)
      | Some (v, expires) \<Rightarrow> if expires < now then (None, c(k := None)) else (Some v, c))"

definition cache_set :: "nat \<Rightarrow> string \<Rightarrow> 'v \<Rightarrow> 'v node_cache \<Rightarrow> 'v node_cache" where
  "cache_set now k v c = c(k \<mapsto> (v, now + stdTTL * 1000))"

text \<open>
  The state of the client: the cache, the global \<open>rateLimitRemaining\<close>, and the log of
  the requests handed to \<open>apiClient.request\<close>.
\<close>

record request =
  req_method :: string
  req_url :: string
  req_data :: "json option"

record client =
  cache :: "FormattedResponse node_cache"
  rateLimit :: "int option"
  issued :: "request list"

text \<open>
  \<open>apiClient.request\<close> with its interceptors is a parameter: at a time and for a request
  it settles after a duration, with the payload and the parsed \<open>x-ratelimit-remaining\<close>
  header if there is one, or with an error that carries the status of the response if
  there was a response.
\<close>

datatype exchange =
    Response json "int option" nat
  | Rejected "nat option" string nat

fun duration :: "exchange \<Rightarrow> nat" where
  "duration (Response _ _ d) = d"
| "duration (Rejected _ _ d) = d"

datatype api_error =
    InvalidApiKey | RateLimitExceeded | BadRequest string | EndpointNotFound string
  | ApiError "nat option" string

definition error_of :: "string \<Rightarrow> nat option \<Rightarrow> string \<Rightarrow> api_error" where
  "error_of ep status msg =
     (if status = Some 401 then InvalidApiKey
      else if status = Some 429 then RateLimitExceeded
      else if status = Some 400 then BadRequest msg
      else if status = Some 404 then EndpointNotFound ep
      else ApiError status msg)"

text \<open>The cache key; \<open>ser\<close> is \<open>JSON.stringify\<close>.\<close>

definition cacheKey :: "(json \<Rightarrow> string) \<Rightarrow> string \<Rightarrow> string \<Rightarrow> json option \<Rightarrow> string" where
  "cacheKey ser method ep d =
     method @ '':'' @ ep @ '':'' @
       ser (case d of None \<Rightarrow> JObject [] | Some x \<Rightarrow> if truthy x then x else JObject [])"

definition makeApiCall ::
  "(json \<Rightarrow> string) \<Rightarrow> (nat \<Rightarrow> request \<Rightarrow> exchange) \<Rightarrow> nat \<Rightarrow>
   string \<Rightarrow> string \<Rightarrow> json option \<Rightarrow> bool \<Rightarrow> client \<Rightarrow> (api_error + FormattedResponse) \<times> client" where
  "makeApiCall ser apiRequest now ep method d useCache c =
     (let k = cacheKey ser method ep d;
          (cachedData, c1) =
            (if useCache \<and> method = ''POST''
             then (let (v, ch) = cache_get now k (cache c) in (v, c\<lparr>cache := ch\<rparr>))
             else (None, c))
      in case cachedData of
           Some v \<Rightarrow> (Inr v, c1)
         | None \<Rightarrow>
             (let req = \<lparr>req_method = method, req_url = ep, req_data = d\<rparr>;
                  c2 = c1\<lparr>issued := issued c1 @ [req]\<rparr>
              in case apiRequest now req of
                   Response payload header dur \<Rightarrow>
                     (let c3 = (case header of None \<Rightarrow> c2 | Some n \<Rightarrow> c2\<lparr>rateLimit := Some n\<rparr>);
                          formattedData = formatResponse (rateLimit c3) (now + dur) payload ep;
                          c4 = (if useCache \<and> method = ''POST''
                                then c3\<lparr>cache := cache_set (now + dur) k formattedData (cache c3)\<rparr>
                                else c3)
                      in (Inr formattedData, c4))
                 | Rejected status msg dur \<Rightarrow> (Inl (error_of ep status msg), c2)))"

text \<open>
  \<open>makeApiCall\<close> is asynchronous and has one \<open>await\<close>, on the request. Calls that are
  in flight at the same time interleave at that point, so a call is cut in two:
  \<open>lookup\<close> is the part before the request is handed over (the cache check), and
  \<open>receive\<close> is the part after the \<open>await\<close>, which runs at the time the exchange
  settles, on the state of that time.
\<close>

definition lookup ::
  "(json \<Rightarrow> string) \<Rightarrow> nat \<Rightarrow> string \<Rightarrow> string \<Rightarrow> json option \<Rightarrow> bool \<Rightarrow> client \<Rightarrow>
   FormattedResponse option \<times> client" where
  "lookup ser now ep method d useCache c =
     (if useCache \<and> method = ''POST''
      then (let (v, ch) = cache_get now (cacheKey ser method ep d) (cache c) in (v, c\<lparr>cache := ch\<rparr>))
      else (None, c))"

definition receive ::
  "(json \<Rightarrow> string) \<Rightarrow> nat \<Rightarrow> string \<Rightarrow> string \<Rightarrow> json option \<Rightarrow> bool \<Rightarrow> exchange \<Rightarrow> client \<Rightarrow>
   (api_error + FormattedResponse) \<times> client" where
  "receive ser now ep method d useCache x c =
     (case x of
        Response payload header dur \<Rightarrow>
          (let c3 = (case header of None \<Rightarrow> c | Some n \<Rightarrow> c\<lparr>rateLimit := Some n\<rparr>);
               formattedData = formatResponse (rateLimit c3) now payload ep;
               c4 = (if useCache \<and> method = ''POST''
                     then c3\<lparr>cache := cache_set now (cacheKey ser method ep d) formattedData
                                         (cache c3)\<rparr>
                     else c3)
           in (Inr formattedData, c4))
      | Rejected status msg dur \<Rightarrow> (Inl (error_of ep status msg), c))"

text \<open>
  What happens between two calls: other calls reach their request (\<open>Before\<close>, at a time)
  or continue after it (\<open>After\<close>, with the exchange and the time at which it settled), in
  any order.
\<close>

record call =
  call_endpoint :: string
  call_method :: string
  call_data :: "json option"
  call_useCache :: bool

datatype moment = Before call nat | After call exchange nat

fun moment_time :: "moment \<Rightarrow> nat" where
  "moment_time (Before _ t) = t"
| "moment_time (After _ _ t) = t"

fun advance :: "(json \<Rightarrow> string) \<Rightarrow> moment \<Rightarrow> client \<Rightarrow> client" where
  "advance ser (Before cl t) c =
     (case lookup ser t (call_endpoint cl) (call_method cl) (call_data cl) (call_useCache cl) c of
        (Some v, c1) \<Rightarrow> c1
      | (None, c1) \<Rightarrow>
          c1\<lparr>issued := issued c1 @ [\<lparr>req_method = call_method cl, req_url = call_endpoint cl,
                                      req_data = call_data cl\<rparr>]\<rparr>)"
| "advance ser (After cl x t) c =
     snd (receive ser t (call_endpoint cl) (call_method cl) (call_data cl) (call_useCache cl) x c)"

definition interleave :: "(json \<Rightarrow> string) \<Rightarrow> moment list \<Rightarrow> client \<Rightarrow> client" where
  "interleave ser ms c = fold (advance ser) ms c"

text \<open>The moments that store an envelope under the key \<open>k\<close>.\<close>

fun stores :: "(json \<Rightarrow> string) \<Rightarrow> string \<Rightarrow> moment \<Rightarrow> bool" where
  "stores ser k (After cl (Response _ _ _) t) =
     (call_useCache cl \<and> call_method cl = ''POST'' \<and>
      cacheKey ser (call_method cl) (call_endpoint cl) (call_data cl) = k)"
| "stores ser k _ = False"


section \<open>The concurrency limiter\<close>

text \<open>
  \<open>pLimit(concurrency)\<close> returns the function \<open>run\<close>, which closes over the counter
  \<open>active\<close> and the array \<open>queue\<close> of resolvers. Units of work are identified by
  numbers. A call of the asynchronous \<open>run\<close> is cut at its two \<open>await\<close>s, which gives
  three kinds of step on the single thread:
  \<^item> \<open>Call u\<close>: \<open>run\<close> is called with unit \<open>u\<close>. If \<open>active >= concurrency\<close> the
    resolver of a new promise is pushed on \<open>queue\<close> and the call waits for it; otherwise
    \<open>active++\<close> and the unit is started.
  \<^item> \<open>Settle u\<close>: the promise of the running unit \<open>u\<close> settles, fulfilled or rejected,
    and the \<open>finally\<close> block runs \<open>next\<close>: \<open>active--\<close>, and the first resolver of
    \<open>queue\<close>, if there is one, is shifted and called. Its waiter does not continue
    yet: its continuation is put on the microtask queue.
  \<^item> \<open>Resume\<close>: the first waiter whose promise is resolved continues after its
    \<open>await\<close>: \<open>active++\<close> and its unit is started.

  Besides \<open>active\<close> and \<open>queue\<close> the state records the waiters that are resolved and
  have not continued yet, the running units, and two logs: the units in the order in which
  they were started and in the order in which they settled.
\<close>

record limiter =
  active :: int
  queue :: "nat list"
  resolved :: "nat list"
  running :: "nat list"
  started :: "nat list"
  settled :: "nat list"

datatype event = Call nat | Settle nat | Resume

definition start :: "nat \<Rightarrow> limiter \<Rightarrow> limiter" where
  "start u s =
     s\<lparr>active := active s + 1, running := running s @ [u], started := started s @ [u]\<rparr>"

definition next_js :: "limiter \<Rightarrow> limiter" where
  "next_js s =
     (let s1 = s\<lparr>active := active s - 1\<rparr>
      in case queue s1 of
           [] \<Rightarrow> s1
         | w # q \<Rightarrow> s1\<lparr>queue := q, resolved := resolved s1 @ [w]\<rparr>)"

text \<open>A step that cannot happen in the state (no such running unit, no resolved waiter) is \<open>None\<close>.\<close>

fun step :: "int \<Rightarrow> event \<Rightarrow> limiter \<Rightarrow> limiter option" where
  "step concurrency (Call u) s =
     Some (if active s \<ge> concurrency then s\<lparr>queue := queue s @ [u]\<rparr> else start u s)"
| "step concurrency (Settle u) s =
     (if u \<in> set (running s)
      then Some (next_js (s\<lparr>running := remove1 u (running s), settled := settled s @ [u]\<rparr>))
      else None)"
| "step concurrency Resume s =
     (case resolved s of
        [] \<Rightarrow> None
      | u # us \<Rightarrow> Some (start u (s\<lparr>resolved := us\<rparr>)))"

fun exec :: "int \<Rightarrow> event list \<Rightarrow> limiter \<Rightarrow> limiter option" where
  "exec concurrency [] s = Some s"
| "exec concurrency (e # es) s =
     (case step concurrency e s of None \<Rightarrow> None | Some s' \<Rightarrow> exec concurrency es s')"

definition pLimit :: limiter where
  "pLimit =
     \<lparr>active = 0, queue = [], resolved = [], running = [], started = [], settled = []\<rparr>"




section \<open>The backlink opportunity pipeline\<close>

subsection \<open>Targets\<close>

record KwRow =
  kr_keyword :: string
  kr_url :: "string option"
  kr_rank :: jsnum

text \<open>One iteration of the loop that fills \<open>bestRankByUrl\<close>.\<close>

definition noteRank :: "KwRow \<Rightarrow> (string \<rightharpoonup> jsnum) \<Rightarrow> (string \<rightharpoonup> jsnum)" where
  "noteRank row m =
     (case kr_url row of
        None \<Rightarrow> m
      | Some u \<Rightarrow>
          if u = [] then m
          else
            let prev = (case m u of None \<Rightarrow> PosInf | Some p \<Rightarrow> p)
            in if jlt (kr_rank row) prev then m(u \<mapsto> kr_rank row) else m)"

definition bestRankByUrl :: "KwRow list \<Rightarrow> (string \<rightharpoonup> jsnum)" where
  "bestRankByUrl baseKw = fold noteRank baseKw Map.empty"

record pageRow =
  pg_url :: "string option"
  pg_link :: "string option"
  pg_target :: "string option"
  pg_semanticValue :: "real option"
  pg_sv :: "real option"
  pg_pageValue :: "real option"
  pg_pv :: "real option"

text \<open>A candidate; the empty string stands for a \<open>null\<close> URL as well, both being falsy.\<close>

record candidate =
  cand_url :: string
  cand_sv :: real
  cand_pv :: real

definition orZero :: "real option \<Rightarrow> real" where
  "orZero a = (case a of None \<Rightarrow> 0 | Some x \<Rightarrow> x)"

definition toCandidate :: "pageRow \<Rightarrow> candidate" where
  "toCandidate p =
     \<lparr>cand_url = (case nullish (nullish (pg_url p) (pg_link p)) (pg_target p) of
                    None \<Rightarrow> [] | Some u \<Rightarrow> u),
      cand_sv = orZero (nullish (pg_semanticValue p) (pg_sv p)),
      cand_pv = orZero (nullish (pg_pageValue p) (pg_pv p))\<rparr>"

definition candidates :: "pageRow list \<Rightarrow> candidate list" where
  "candidates internalPages = filter (\<lambda>p. cand_url p \<noteq> []) (map toCandidate internalPages)"

definition rankOk :: "(string \<rightharpoonup> jsnum) \<Rightarrow> candidate \<Rightarrow> bool" where
  "rankOk best p =
     (\<not> (case best (cand_url p) of None \<Rightarrow> False | Some br \<Rightarrow> jlt br (Fin 5)))"

definition bySvPv :: "candidate \<Rightarrow> candidate \<Rightarrow> real" where
  "bySvPv a b = orElse (cand_sv b - cand_sv a) (cand_pv b - cand_pv a)"

definition bySv :: "candidate \<Rightarrow> candidate \<Rightarrow> real" where
  "bySv a b = cand_sv b - cand_sv a"

definition filteredCandidates :: "KwRow list \<Rightarrow> pageRow list \<Rightarrow> candidate list" where
  "filteredCandidates baseKw internalPages =
     sort_js bySvPv (filter (rankOk (bestRankByUrl baseKw)) (candidates internalPages))"

definition selectTargets :: "string list \<Rightarrow> KwRow list \<Rightarrow> pageRow list \<Rightarrow> int \<Rightarrow> string list" where
  "selectTargets initialTargets baseKw internalPages maxTargets =
     (if initialTargets \<noteq> [] then initialTargets
      else
        let targets = slice0 maxTargets (uniq (map cand_url (filteredCandidates baseKw internalPages)))
        in if targets = [] \<and> candidates internalPages \<noteq> []
           then slice0 maxTargets (uniq (map cand_url (sort_js bySv (candidates internalPages))))
           else targets)"

subsection \<open>Sources and opportunities\<close>

record refRow =
  rr_host :: "string option"
  rr_domain :: "string option"
  rr_name :: "string option"

definition ourRefHosts :: "refRow list \<Rightarrow> string set" where
  "ourRefHosts rows =
     set (filter (\<lambda>h. h \<noteq> [])
            (map (\<lambda>h. orStr (rr_host h) (orStr (rr_domain h) (orStr (rr_name h) []))) rows))"

record source =
  src_url :: "string option"
  src_host :: string
  src_semanticValue :: real
  src_pageValue :: real
  src_babbarAuthorityScore :: real
  src_spotfinderScore :: real

text \<open>
  \<open>new Map(entries)\<close>: a later entry of a key replaces the value and keeps the position
  of the first one.
\<close>

fun upsert :: "'k \<Rightarrow> 'v \<Rightarrow> ('k \<times> 'v) list \<Rightarrow> ('k \<times> 'v) list" where
  "upsert k v [] = [(k, v)]"
| "upsert k v ((k', v') # kvs) = (if k = k' then (k, v) # kvs else (k', v') # upsert k v kvs)"

definition dedupByUrl :: "source list \<Rightarrow> source list" where
  "dedupByUrl sources = map snd (fold (\<lambda>p m. upsert (src_url p) p m) sources [])"

definition uniqueSources :: "refRow list \<Rightarrow> source list \<Rightarrow> source list" where
  "uniqueSources refRows sources =
     filter (\<lambda>p. (case src_url p of None \<Rightarrow> False | Some u \<Rightarrow> u \<noteq> []) \<and> src_host p \<noteq> [] \<and>
                 src_host p \<notin> ourRefHosts refRows)
       (dedupByUrl sources)"

record Opp =
  prospectUrl :: string
  prospectHost :: string
  targetUrl :: string
  inducedStrength :: real
  confidence :: "string option"
  pm_semanticValue :: real
  pm_pageValue :: real
  pm_babbarAuthorityScore :: real
  fromHost :: string
  opp_spotfinderScore :: real

definition bySource :: "source \<Rightarrow> source \<Rightarrow> real" where
  "bySource a b =
     orElse (src_semanticValue b - src_semanticValue a)
       (orElse (src_pageValue b - src_pageValue a)
          (src_spotfinderScore b - src_spotfinderScore a))"

definition byOpp :: "Opp \<Rightarrow> Opp \<Rightarrow> real" where
  "byOpp a b =
     orElse (inducedStrength b - inducedStrength a)
       (orElse (opp_spotfinderScore b - opp_spotfinderScore a)
          (pm_semanticValue b - pm_semanticValue a))"

text \<open>
  The work of one unit submitted to the limiter. \<open>getFi\<close> is a parameter: the induced
  strength the client returns for the pair, zero when the call fails or the value is not
  finite, and the confidence.
\<close>

definition scorePair ::
  "(string \<Rightarrow> string \<Rightarrow> real \<times> string option) \<Rightarrow> real \<Rightarrow> string \<Rightarrow> source \<Rightarrow> Opp list" where
  "scorePair getFi fiThreshold target p =
     (let u = (case src_url p of None \<Rightarrow> [] | Some x \<Rightarrow> x);
          (fi, conf) = getFi u target
      in if fi \<ge> fiThreshold
         then [\<lparr>prospectUrl = u, prospectHost = src_host p, targetUrl = target,
                inducedStrength = fi, confidence = conf,
                pm_semanticValue = src_semanticValue p, pm_pageValue = src_pageValue p,
                pm_babbarAuthorityScore = src_babbarAuthorityScore p,
                fromHost = src_host p, opp_spotfinderScore = src_spotfinderScore p\<rparr>]
         else [])"

text \<open>
  The batch of one target. The units push their results in the order in which they
  complete: \<open>completion\<close> gives, for a target, the order in which the preselected
  sources are completed.
\<close>

definition scoreTarget ::
  "(string \<Rightarrow> string \<Rightarrow> real \<times> string option) \<Rightarrow> real \<Rightarrow> int \<Rightarrow>
   (string \<Rightarrow> source list \<Rightarrow> source list) \<Rightarrow> source list \<Rightarrow> string \<Rightarrow> Opp list" where
  "scoreTarget getFi fiThreshold maxCandidatesPerTarget completion usources target =
     (let preselected = slice0 maxCandidatesPerTarget (sort_js bySource usources)
      in concat (map (scorePair getFi fiThreshold target) (completion target preselected)))"

definition opportunities ::
  "(string \<Rightarrow> string \<Rightarrow> real \<times> string option) \<Rightarrow> real \<Rightarrow> int \<Rightarrow> int \<Rightarrow>
   (string \<Rightarrow> source list \<Rightarrow> source list) \<Rightarrow> refRow list \<Rightarrow> source list \<Rightarrow> string list \<Rightarrow> Opp list" where
  "opportunities getFi fiThreshold maxCandidatesPerTarget topLimit completion refRows sources targets =
     (let usources = uniqueSources refRows sources;
          ops = concat (map (scoreTarget getFi fiThreshold maxCandidatesPerTarget completion usources)
                          targets)
      in slice0 topLimit (sort_js byOpp ops))"

section \<open>Competitor relevance: the score\<close>

text \<open>
  C8. For every base keyword set, competitor keyword list and similarity score,
  \<open>calculateCompetitorRelevance\<close> returns the number of competitor keywords that are in
  the base set, the ratio of that number to the length of the list (zero for the empty
  list), the score \<open>similarityScore * 0.6 + commonRatio * 100 * 0.4\<close>, and the decision
  \<open>commonCount >= 10\<close> and \<open>relevanceScore > 50\<close>. Twelve common keywords out of a
  hundred with similarity 80 give the score 52.8 and a relevant competitor.
\<close>

theorem calculateCompetitorRelevance_score:
  "(let r = calculateCompetitorRelevance B ks s; c = length (filter (\<lambda>k. k \<in> B) ks) in
      commonCount r = c \<and>
      commonRatio r = (if ks = [] then 0 else real c / real (length ks)) \<and>
      relevanceScore r = s * 0.6 + commonRatio r * 100 * 0.4 \<and>
      isRelevant r = (10 \<le> c \<and> 50 < relevanceScore r) \<and>
      (c = 12 \<and> length ks = 100 \<and> s = 80 \<longrightarrow> relevanceScore r = 52.8 \<and> isRelevant r))"
  by (auto simp: calculateCompetitorRelevance_def Let_def)

theorem calculateCompetitorRelevance_score_witness:
  "relevanceScore
     (calculateCompetitorRelevance {''seo''} (replicate 12 ''seo'' @ replicate 88 ''ads'') 80) = 52.8 \<and>
   isRelevant
     (calculateCompetitorRelevance {''seo''} (replicate 12 ''seo'' @ replicate 88 ''ads'') 80)"
  using calculateCompetitorRelevance_score
          [of "{''seo''}" "replicate 12 ''seo'' @ replicate 88 ''ads''" 80]
  by (simp add: Let_def)


section \<open>Duplication buckets: normalisation and severity\<close>

lemma normPct_Fin:
  "normPct (Some (Fin x)) =
     Fin (of_int \<lfloor>(let n1 = (if x \<le> 1 then x * 100 else x);
                          n2 = (if n1 < 0 then 0 else n1)
                      in if 100 < n2 then 100 else n2) * 100 + 1 / 2\<rfloor> / 100)"
  by (simp add: normPct_def jgt_def Let_def)

lemma round_clamped:
  fixes y :: real
  assumes "0 \<le> y" "y \<le> 100"
  shows "0 \<le> \<lfloor>y * 100 + 1 / 2\<rfloor> \<and> \<lfloor>y * 100 + 1 / 2\<rfloor> \<le> 10000"
proof -
  have "0 \<le> y * 100 + 1 / 2" using assms by simp
  then have lo: "0 \<le> \<lfloor>y * 100 + 1 / 2\<rfloor>" by simp
  have "y * 100 + 1 / 2 < 10001" using assms by simp
  then have "\<lfloor>y * 100 + 1 / 2\<rfloor> < 10001" by (simp add: floor_less_iff)
  with lo show ?thesis by simp
qed

text \<open>The result is \<open>NaN\<close> or one of the hundredths between 0 and 100.\<close>

lemma normPct_cases:
  "normPct v = NaN \<or> (\<exists>k::int. 0 \<le> k \<and> k \<le> 10000 \<and> normPct v = Fin (of_int k / 100))"
proof (cases v)
  case None
  then show ?thesis by (simp add: normPct_def)
next
  case (Some n0)
  show ?thesis
  proof (cases n0)
    case NaN
    with Some show ?thesis by (simp add: normPct_def)
  next
    case NegInf
    with Some have "normPct v = Fin (of_int 0 / 100)"
      by (simp add: normPct_def jgt_def inf_of_sign_def)
    then have "(0::int) \<le> 0 \<and> (0::int) \<le> 10000 \<and> normPct v = Fin (of_int 0 / 100)"
      by simp
    then show ?thesis by (intro disjI2 exI)
  next
    case PosInf
    with Some have "normPct v = Fin (of_int 10000 / 100)"
      by (simp add: normPct_def jgt_def)
    then have "(0::int) \<le> 10000 \<and> (10000::int) \<le> 10000 \<and> normPct v = Fin (of_int 10000 / 100)"
      by simp
    then show ?thesis by (intro disjI2 exI)
  next
    case (Fin x)
    define y where "y = (let n1 = (if x \<le> 1 then x * 100 else x);
                             n2 = (if n1 < 0 then 0 else n1)
                         in if 100 < n2 then 100 else n2)"
    have y: "0 \<le> y" "y \<le> 100" by (simp_all add: y_def Let_def)
    have "normPct (Some (Fin x)) = Fin (of_int \<lfloor>y * 100 + 1 / 2\<rfloor> / 100)"
      unfolding y_def by (rule normPct_Fin)
    with round_clamped[OF y] Some Fin
    have "0 \<le> \<lfloor>y * 100 + 1 / 2\<rfloor> \<and> \<lfloor>y * 100 + 1 / 2\<rfloor> \<le> 10000
          \<and> normPct v = Fin (of_int \<lfloor>y * 100 + 1 / 2\<rfloor> / 100)"
      by simp
    then show ?thesis by (intro disjI2 exI)
  qed
qed

text \<open>On a hundredth: values up to 1 are taken for fractions and scaled, the others are kept.\<close>

lemma normPct_hundredth:
  assumes "0 \<le> k" "k \<le> 10000"
  shows "normPct (Some (Fin (of_int k / 100))) =
           (if k \<le> 100 then Fin (of_int k) else Fin (of_int k / 100))"
proof (cases "k \<le> 100")
  case True
  have "\<lfloor>(of_int k :: real) * 100 + 1 / 2\<rfloor> = k * 100"
    by linarith
  with True assms show ?thesis
    by (simp add: normPct_def jgt_def Let_def)
next
  case False
  have "\<lfloor>(of_int k :: real) + 1 / 2\<rfloor> = k" by linarith
  with False assms show ?thesis
    by (simp add: normPct_def jgt_def Let_def)
qed

text \<open>
  C4, as stated, fails: \<open>normPct\<close> is not idempotent. The value 0.005 is read as a
  fraction and becomes 0.5, and 0.5 is read as a fraction again and becomes 50.
\<close>

theorem normPct_not_idempotent:
  "normPct (Some (normPct (Some (Fin (5 / 1000))))) \<noteq> normPct (Some (Fin (5 / 1000)))"
  by (simp add: normPct_def jgt_def)

text \<open>
  C4, amended. For every input, the result of \<open>normPct\<close> is \<open>NaN\<close> or a number in
  \<open>[0,100]\<close>. Applying \<open>normPct\<close> to a result that is 0 or greater than 1 returns it
  unchanged; a result \<open>r\<close> with \<open>0 < r <= 1\<close> is scaled once more, to \<open>r * 100\<close>.
\<close>

theorem normPct_range_and_fixpoints:
  "(normPct v = NaN \<or> (\<exists>r. normPct v = Fin r \<and> 0 \<le> r \<and> r \<le> 100)) \<and>
   (\<forall>r. normPct v = Fin r \<longrightarrow> (r = 0 \<or> 1 < r) \<longrightarrow> normPct (Some (Fin r)) = Fin r) \<and>
   (\<forall>r. normPct v = Fin r \<longrightarrow> 0 < r \<and> r \<le> 1 \<longrightarrow> normPct (Some (Fin r)) = Fin (r * 100))"
proof -
  consider (nan) "normPct v = NaN"
    | (fin) k :: int where "0 \<le> k" "k \<le> 10000" "normPct v = Fin (of_int k / 100)"
    using normPct_cases by blast
  then show ?thesis
  proof cases
    case nan
    then show ?thesis by simp
  next
    case fin
    have "normPct v = Fin (of_int k / 100) \<and> 0 \<le> (of_int k :: real) / 100 \<and>
          (of_int k :: real) / 100 \<le> 100"
      using fin by simp
    then have a: "normPct v = NaN \<or> (\<exists>r. normPct v = Fin r \<and> 0 \<le> r \<and> r \<le> 100)"
      by (intro disjI2 exI)
    have b: "normPct (Some (Fin r)) = Fin r" if h: "normPct v = Fin r" "r = 0 \<or> 1 < r" for r
    proof -
      from h(1) fin(3) have e: "r = of_int k / 100" by simp
      with h(2) have "k = 0 \<or> 100 < k" by auto
      then show ?thesis
      proof
        assume "k = 0"
        with normPct_hundredth[OF fin(1,2)] show ?thesis unfolding e by simp
      next
        assume "100 < k"
        with normPct_hundredth[OF fin(1,2)] show ?thesis unfolding e by simp
      qed
    qed
    have c: "normPct (Some (Fin r)) = Fin (r * 100)"
      if h: "normPct v = Fin r" "0 < r \<and> r \<le> 1" for r
    proof -
      from h(1) fin(3) have e: "r = of_int k / 100" by simp
      with h(2) have "k \<le> 100" by auto
      with normPct_hundredth[OF fin(1,2)] show ?thesis unfolding e by simp
    qed
    from a b c show ?thesis by simp
  qed
qed

theorem normPct_range_and_fixpoints_witness:
  "normPct (Some (Fin (869 / 1000))) = Fin (869 / 10) \<and>
   normPct (Some (Fin (869 / 10))) = Fin (869 / 10) \<and>
   normPct (Some (Fin (5 / 1000))) = Fin (1 / 2) \<and>
   normPct (Some (Fin (1 / 2))) = Fin (1 / 2 * 100)"
proof -
  have a: "normPct (Some (Fin (869 / 1000))) = Fin (869 / 10)"
    by (simp add: normPct_def jgt_def)
  have b: "normPct (Some (Fin (5 / 1000))) = Fin (1 / 2)"
    by (simp add: normPct_def jgt_def)
  have c: "(869 / 10 :: real) = 0 \<or> 1 < (869 / 10 :: real)" by simp
  have d: "0 < (1 / 2 :: real) \<and> (1 / 2 :: real) \<le> 1" by simp
  note keep = normPct_range_and_fixpoints
                [of "Some (Fin (869 / 1000))", THEN conjunct2, THEN conjunct1, rule_format, OF a c]
  note scale = normPct_range_and_fixpoints
                [of "Some (Fin (5 / 1000))", THEN conjunct2, THEN conjunct2, rule_format, OF b d]
  from keep scale have "normPct (Some (Fin (869 / 10))) = Fin (869 / 10) \<and>
    normPct (Some (Fin (1 / 2))) = Fin (1 / 2 * 100)" by (rule conjI)
  with a b show ?thesis by blast
qed

lemma bucket_percent_to:
  assumes "b \<in> set (buckets rawBuckets)"
  shows "\<exists>k::int. 0 \<le> k \<and> k \<le> 10000 \<and> percent_to b = Fin (of_int k / 100)"
proof -
  from assms have f: "isFinite (percent_to b)" and "b \<in> toBucket ` set rawBuckets"
    by (simp_all add: buckets_def)
  then obtain rb where "b = toBucket rb" by blast
  then have "percent_to b = normPct (nullish (nullish (raw_percent_to rb) (raw_to rb)) (raw_end rb))"
    by (simp add: toBucket_def)
  with normPct_cases[of "nullish (nullish (raw_percent_to rb) (raw_to rb)) (raw_end rb)"] f
  show ?thesis by auto
qed

text \<open>
  C3. With the threshold 87, every bucket that survives normalisation has its upper end
  in \<open>[0,100]\<close>, is problematic exactly when that end is at least 87, and has the
  severity blocker from 95, critical from 92, high from 87 and info below. An end of 86.9
  is not problematic and an end of 87 is. For any threshold \<open>t\<close> the bucket crosses it
  exactly when its end is at least \<open>t\<close>, and the severity is blocker from 95, critical
  from 92, high from \<open>t\<close>, info otherwise.
\<close>

theorem duplication_threshold:
  "(\<forall>a\<in>set (annotated (Fin 87) rawBuckets).
      \<exists>x. percent_to (bucket a) = Fin x \<and> 0 \<le> x \<and> x \<le> 100 \<and>
          (isProblematic a \<longleftrightarrow> 87 \<le> x) \<and>
          severity a = (if 95 \<le> x then blocker else if 92 \<le> x then critical
                        else if 87 \<le> x then high else info)) \<and>
   (percent_to b = Fin (869 / 10) \<longrightarrow> \<not> crossesThreshold (Fin 87) b) \<and>
   (percent_to b = Fin 87 \<longrightarrow> crossesThreshold (Fin 87) b) \<and>
   (percent_to b = Fin x \<longrightarrow>
      (crossesThreshold (Fin t) b \<longleftrightarrow> t \<le> x) \<and>
      severityOf (Fin t) b = (if 95 \<le> x then blocker else if 92 \<le> x then critical
                              else if t \<le> x then high else info))"
proof (intro conjI ballI impI)
  fix a assume "a \<in> set (annotated (Fin 87) rawBuckets)"
  then obtain c where c: "c \<in> set (buckets rawBuckets)"
    and a: "a = \<lparr>bucket = c, isProblematic = crossesThreshold (Fin 87) c,
                 severity = severityOf (Fin 87) c\<rparr>"
    by (auto simp: annotated_def)
  from bucket_percent_to[OF c] obtain k :: int
    where k: "0 \<le> k" "k \<le> 10000" "percent_to c = Fin (of_int k / 100)" by blast
  have "percent_to (bucket a) = Fin (of_int k / 100) \<and> 0 \<le> (of_int k :: real) / 100 \<and>
        (of_int k :: real) / 100 \<le> 100 \<and>
        (isProblematic a \<longleftrightarrow> 87 \<le> (of_int k :: real) / 100) \<and>
        severity a = (if 95 \<le> (of_int k :: real) / 100 then blocker
                      else if 92 \<le> (of_int k :: real) / 100 then critical
                      else if 87 \<le> (of_int k :: real) / 100 then high else info)"
    using k a by (simp add: crossesThreshold_def severityOf_def jge_def)
  then show "\<exists>x. percent_to (bucket a) = Fin x \<and> 0 \<le> x \<and> x \<le> 100 \<and>
          (isProblematic a \<longleftrightarrow> 87 \<le> x) \<and>
          severity a = (if 95 \<le> x then blocker else if 92 \<le> x then critical
                        else if 87 \<le> x then high else info)"
    by (rule exI)
next
  assume "percent_to b = Fin (869 / 10)"
  then show "\<not> crossesThreshold (Fin 87) b" by (simp add: crossesThreshold_def jge_def)
next
  assume "percent_to b = Fin 87"
  then show "crossesThreshold (Fin 87) b" by (simp add: crossesThreshold_def jge_def)
next
  assume "percent_to b = Fin x"
  then show "crossesThreshold (Fin t) b \<longleftrightarrow> t \<le> x" by (simp add: crossesThreshold_def jge_def)
next
  assume "percent_to b = Fin x"
  then show "severityOf (Fin t) b = (if 95 \<le> x then blocker else if 92 \<le> x then critical
                              else if t \<le> x then high else info)"
    by (simp add: severityOf_def jge_def)
qed

theorem duplication_threshold_witness:
  "map (\<lambda>a. (percent_to (bucket a), isProblematic a, severity a))
     (annotated (Fin 87)
        [\<lparr>raw_percent_from = Some (Fin (8 / 10)), raw_from = None, raw_start = None,
          raw_percent_to = Some (Fin (869 / 1000)), raw_to = None, raw_end = None,
          raw_pairs = Some (Fin 4), raw_count = None\<rparr>,
         \<lparr>raw_percent_from = None, raw_from = Some (Fin 80), raw_start = None,
          raw_percent_to = None, raw_to = Some (Fin 87), raw_end = None,
          raw_pairs = None, raw_count = Some (Fin 2)\<rparr>])
   = [(Fin (869 / 10), False, info), (Fin 87, True, high)]"
  using duplication_threshold
    [of "[\<lparr>raw_percent_from = Some (Fin (8 / 10)), raw_from = None, raw_start = None,
          raw_percent_to = Some (Fin (869 / 1000)), raw_to = None, raw_end = None,
          raw_pairs = Some (Fin 4), raw_count = None\<rparr>,
         \<lparr>raw_percent_from = None, raw_from = Some (Fin 80), raw_start = None,
          raw_percent_to = None, raw_to = Some (Fin 87), raw_end = None,
          raw_pairs = None, raw_count = Some (Fin 2)\<rparr>]"
        "\<lparr>percent_from = Fin 80, percent_to = Fin 87, pairs = Fin 2\<rparr>" 87 87]
  by (simp add: annotated_def buckets_def toBucket_def normPct_def nullish_def pairsOf_def
        crossesThreshold_def severityOf_def jge_def jgt_def)

section \<open>Sorting: the result is an ordered rearrangement\<close>

lemma set_insert_js [simp]: "set (insert_js cmp x ys) = insert x (set ys)"
  by (induction ys) auto

lemma set_sort_js [simp]: "set (sort_js cmp xs) = set xs"
  by (induction xs) (auto simp: sort_js_def)

lemma mset_insert_js [simp]: "mset (insert_js cmp x ys) = add_mset x (mset ys)"
  by (induction ys) auto

lemma mset_sort_js [simp]: "mset (sort_js cmp xs) = mset xs"
  by (induction xs) (auto simp: sort_js_def)

lemma length_sort_js [simp]: "length (sort_js cmp xs) = length xs"
  using mset_sort_js[of cmp xs] by (metis size_mset)

lemma sorted_insert_js:
  assumes tot: "\<And>a b. cmp a b \<le> 0 \<or> cmp b a \<le> 0"
    and tr: "\<And>a b c. cmp a b \<le> 0 \<Longrightarrow> cmp b c \<le> 0 \<Longrightarrow> cmp a c \<le> 0"
    and s: "sorted_wrt (\<lambda>a b. cmp a b \<le> 0) ys"
  shows "sorted_wrt (\<lambda>a b. cmp a b \<le> 0) (insert_js cmp x ys)"
  using s
proof (induction ys)
  case Nil
  then show ?case by simp
next
  case (Cons y ys)
  show ?case
  proof (cases "cmp x y \<le> 0")
    case True
    with Cons.prems tr show ?thesis by auto
  next
    case False
    with tot have "cmp y x \<le> 0" by blast
    with False Cons show ?thesis by auto
  qed
qed

lemma sorted_sort_js:
  assumes tot: "\<And>a b. cmp a b \<le> 0 \<or> cmp b a \<le> 0"
    and tr: "\<And>a b c. cmp a b \<le> 0 \<Longrightarrow> cmp b c \<le> 0 \<Longrightarrow> cmp a c \<le> 0"
  shows "sorted_wrt (\<lambda>a b. cmp a b \<le> 0) (sort_js cmp xs)"
proof (induction xs)
  case Nil
  then show ?case by (simp add: sort_js_def)
next
  case (Cons x xs)
  have "sort_js cmp (x # xs) = insert_js cmp x (sort_js cmp xs)"
    by (simp add: sort_js_def)
  with sorted_insert_js[of cmp "sort_js cmp xs" x, OF tot tr Cons] show ?case by simp
qed

lemma set_slice0: "set (slice0 n xs) \<subseteq> set xs"
  by (auto simp: slice0_def dest: in_set_takeD)

lemma set_uniq [simp]: "set (uniq xs) = set xs"
  by (simp add: uniq_def)


section \<open>Keyword opportunities: emission, order, fields\<close>

lemma set_findKeywordOpportunities:
  "set (findKeywordOpportunities lc bs cs host) =
     (\<Union>kw\<in>set cs. set (pushed lc (baseKwMap lc bs) host kw))"
  by (simp add: findKeywordOpportunities_def)

lemma pushed_eq:
  "pushed lc m host kw =
     (if keywordOf lc kw \<noteq> [] \<and> positionOf kw \<le> 10 \<and> 10 < ourPositionOf m (keywordOf lc kw)
      then [\<lparr>keyword = keywordOf lc kw, competitorHost = host, competitorPosition = positionOf kw,
             ourPosition = (if ourPositionOf m (keywordOf lc kw) = 999 then Str nonClasse
                            else Num (ourPositionOf m (keywordOf lc kw))),
             volume = volumeOf kw, gap = ourPositionOf m (keywordOf lc kw) - positionOf kw,
             priority = (if positionOf kw \<le> 3 then High
                         else if positionOf kw \<le> 5 then Medium else Low)\<rparr>]
      else [])"
  by (simp add: pushed_def Let_def)















text \<open>
  C10. Every record emitted by \<open>findKeywordOpportunities\<close> has a strictly positive
  \<open>gap\<close>.
\<close>

theorem gap_positive:
  "\<forall>r\<in>set (findKeywordOpportunities lc bs cs host). 0 < gap r"
  unfolding set_findKeywordOpportunities
  by (auto simp: pushed_eq split: if_splits)

theorem gap_positive_witness:
  "map gap
     (findKeywordOpportunities lowerASCII
        [\<lparr>kw_keyword = Some ''widgets'', kw_query = None, kw_position = Some 15,
          kw_rank = None, kw_volume = None, kw_searchVolume = None\<rparr>]
        [\<lparr>kw_keyword = Some ''widgets'', kw_query = None, kw_position = Some 2,
          kw_rank = None, kw_volume = None, kw_searchVolume = None\<rparr>]
        ''rival.example'') = [13] \<and> (0::real) < 13"
  using gap_positive
    [of lowerASCII
        "[\<lparr>kw_keyword = Some ''widgets'', kw_query = None, kw_position = Some 15,
          kw_rank = None, kw_volume = None, kw_searchVolume = None\<rparr>]"
        "[\<lparr>kw_keyword = Some ''widgets'', kw_query = None, kw_position = Some 2,
          kw_rank = None, kw_volume = None, kw_searchVolume = None\<rparr>]"
        "''rival.example''"]
  by (simp add: positionOf_def orNum_def ourPositionOf_def baseKwMap_def keywordOf_def orStr_def
        lowerASCII_def lower_char_def findKeywordOpportunities_def pushed_def sort_js_def
        volumeOf_def)


section \<open>The remote data client: cache hits and cache writes\<close>

lemma makeApiCall_parts:
  "makeApiCall ser rq now ep method d useCache c =
     (case lookup ser now ep method d useCache c of
        (Some v, c1) \<Rightarrow> (Inr v, c1)
      | (None, c1) \<Rightarrow>
          receive ser (now + duration (rq now \<lparr>req_method = method, req_url = ep, req_data = d\<rparr>))
            ep method d useCache (rq now \<lparr>req_method = method, req_url = ep, req_data = d\<rparr>)
            (c1\<lparr>issued := issued c1 @ [\<lparr>req_method = method, req_url = ep, req_data = d\<rparr>]\<rparr>))"
  by (auto simp: makeApiCall_def lookup_def receive_def Let_def
           split: option.splits prod.splits exchange.splits)

lemma makeApiCall_hit:
  assumes "cache c k = Some (v, e)" "now \<le> e" "k = cacheKey ser ''POST'' ep d"
  shows "makeApiCall ser rq now ep ''POST'' d True c = (Inr v, c)"
  using assms by (simp add: makeApiCall_def cache_get_def Let_def)

lemma makeApiCall_fetch:
  assumes "makeApiCall ser rq now ep ''POST'' d True c = (Inr env, c')" "issued c' \<noteq> issued c"
  shows "cache c' (cacheKey ser ''POST'' ep d) =
           Some (env, now + duration (rq now \<lparr>req_method = ''POST'', req_url = ep, req_data = d\<rparr>)
                        + stdTTL * 1000)"
  using assms
  by (auto simp: makeApiCall_def cache_get_def cache_set_def Let_def
           split: option.splits if_splits exchange.splits prod.splits)

text \<open>
  An entry that is fresh at time \<open>t\<close> stays fresh at \<open>t\<close> through a moment that lies
  within the TTL before \<open>t\<close>: a lookup does not remove it, and a moment that stores under
  the same key replaces it by an entry that expires later.
\<close>

lemma advance_keeps_fresh:
  assumes "cache c k = Some (v, e)" "t \<le> e" "moment_time m \<le> t"
    "t \<le> moment_time m + stdTTL * 1000"
  shows "\<exists>v' e'. cache (advance ser m c) k = Some (v', e') \<and> t \<le> e' \<and>
           (\<not> stores ser k m \<longrightarrow> v' = v)"
proof (cases m)
  case (Before cl \<tau>)
  with assms show ?thesis
    by (auto simp: lookup_def cache_get_def Let_def split: option.splits if_splits prod.splits)
next
  case (After cl x \<tau>)
  show ?thesis
  proof (cases x)
    case (Response payload header dur)
    with After assms show ?thesis
      by (auto simp: receive_def cache_set_def Let_def split: option.splits if_splits)
  next
    case (Rejected status msg dur)
    with After assms show ?thesis by (simp add: receive_def)
  qed
qed

lemma interleave_keeps_fresh:
  assumes "cache c k = Some (v, e)" "t \<le> e"
    "\<forall>m\<in>set ms. moment_time m \<le> t \<and> t \<le> moment_time m + stdTTL * 1000"
  shows "\<exists>v' e'. cache (interleave ser ms c) k = Some (v', e') \<and> t \<le> e' \<and>
           ((\<forall>m\<in>set ms. \<not> stores ser k m) \<longrightarrow> v' = v)"
  using assms unfolding interleave_def
proof (induction ms arbitrary: c v e)
  case Nil
  then show ?case by simp
next
  case (Cons m ms)
  from Cons.prems(3) have m: "moment_time m \<le> t" "t \<le> moment_time m + stdTTL * 1000"
    and ms: "\<forall>m\<in>set ms. moment_time m \<le> t \<and> t \<le> moment_time m + stdTTL * 1000"
    by simp_all
  from advance_keeps_fresh[OF Cons.prems(1,2) m, of ser] obtain v1 e1
    where 1: "cache (advance ser m c) k = Some (v1, e1)" "t \<le> e1" "\<not> stores ser k m \<longrightarrow> v1 = v"
    by blast
  from Cons.IH[OF 1(1,2) ms] obtain v' e'
    where 2: "cache (fold (advance ser) ms (advance ser m c)) k = Some (v', e')" "t \<le> e'"
      "(\<forall>m\<in>set ms. \<not> stores ser k m) \<longrightarrow> v' = v1"
    by blast
  from 1(3) 2(3) have "(\<forall>m\<in>set (m # ms). \<not> stores ser k m) \<longrightarrow> v' = v" by simp
  with 2(1,2) show ?case by simp
qed

lemma makeApiCall_writes:
  assumes "makeApiCall ser rq now ep method d useCache c = (res, c')" "cache c' k = Some w"
  shows "cache c k = Some w \<or>
         (method = ''POST'' \<and> useCache \<and> k = cacheKey ser method ep d \<and> issued c' \<noteq> issued c \<and>
          res = Inr (fst w))"
  using assms
  by (auto simp: makeApiCall_def cache_get_def cache_set_def Let_def
           split: option.splits if_splits exchange.splits prod.splits)

text \<open>After the TTL the entry is not served: the call goes to the network.\<close>

lemma makeApiCall_expired:
  assumes "cache c (cacheKey ser method ep d) = Some (v, e)" "e < now"
  shows "issued (snd (makeApiCall ser rq now ep method d useCache c)) =
           issued c @ [\<lparr>req_method = method, req_url = ep, req_data = d\<rparr>]"
  using assms
  by (auto simp: makeApiCall_def cache_get_def cache_set_def Let_def
           split: option.splits if_splits exchange.splits prod.splits)

text \<open>
  C1. Take a cacheable call (POST, \<open>useCache\<close>) that went to the network and succeeded
  with envelope \<open>env\<close>; then any moments of other calls, each within the TTL before
  \<open>t\<close>; then a cacheable call with the same cache key at a time \<open>t\<close> that is no later
  than 864,000 seconds after the first call completed. This call returns the envelope
  that the cache holds under the key and leaves the state unchanged, request log included:
  no network request is issued. The envelope is \<open>env\<close> unless a call in between has
  stored a newer one under the key. And for every call of \<open>makeApiCall\<close>, an entry that
  is in the cache afterwards was there before, or the call was a POST with \<open>useCache\<close>
  that issued a request and succeeded, and the entry is its envelope under its cache key.
\<close>

theorem makeApiCall_cache:
  "(makeApiCall ser rq t0 ep ''POST'' d True c0 = (Inr env, c1) \<and> issued c1 \<noteq> issued c0 \<and>
    (\<forall>m\<in>set ms. moment_time m \<le> t \<and> t \<le> moment_time m + stdTTL * 1000) \<and>
    t \<le> t0 + duration (rq t0 \<lparr>req_method = ''POST'', req_url = ep, req_data = d\<rparr>) + stdTTL * 1000
    \<longrightarrow> (\<exists>v e. cache (interleave ser ms c1) (cacheKey ser ''POST'' ep d) = Some (v, e) \<and>
               makeApiCall ser rq t ep ''POST'' d True (interleave ser ms c1)
                 = (Inr v, interleave ser ms c1) \<and>
               ((\<forall>m\<in>set ms. \<not> stores ser (cacheKey ser ''POST'' ep d) m) \<longrightarrow> v = env))) \<and>
   (makeApiCall ser rq now ep' method d' useCache c = (res, c') \<and> cache c' k = Some w
    \<longrightarrow> cache c k = Some w \<or>
        (method = ''POST'' \<and> useCache \<and> k = cacheKey ser method ep' d' \<and>
         issued c' \<noteq> issued c \<and> res = Inr (fst w)))"
proof (intro conjI impI)
  assume a: "makeApiCall ser rq t0 ep ''POST'' d True c0 = (Inr env, c1) \<and> issued c1 \<noteq> issued c0 \<and>
    (\<forall>m\<in>set ms. moment_time m \<le> t \<and> t \<le> moment_time m + stdTTL * 1000) \<and>
    t \<le> t0 + duration (rq t0 \<lparr>req_method = ''POST'', req_url = ep, req_data = d\<rparr>) + stdTTL * 1000"
  define e0 where
    "e0 = t0 + duration (rq t0 \<lparr>req_method = ''POST'', req_url = ep, req_data = d\<rparr>) + stdTTL * 1000"
  let ?k = "cacheKey ser ''POST'' ep d"
  from a have a1: "makeApiCall ser rq t0 ep ''POST'' d True c0 = (Inr env, c1)"
    and a2: "issued c1 \<noteq> issued c0"
    and a3: "\<forall>m\<in>set ms. moment_time m \<le> t \<and> t \<le> moment_time m + stdTTL * 1000"
    and a4: "t \<le> e0"
    unfolding e0_def by simp_all
  have w: "cache c1 ?k = Some (env, e0)"
    unfolding e0_def by (rule makeApiCall_fetch[OF a1 a2])
  from interleave_keeps_fresh[OF w a4 a3, of ser] obtain v e
    where f: "cache (interleave ser ms c1) ?k = Some (v, e)" "t \<le> e"
      "(\<forall>m\<in>set ms. \<not> stores ser ?k m) \<longrightarrow> v = env"
    by blast
  have "makeApiCall ser rq t ep ''POST'' d True (interleave ser ms c1)
          = (Inr v, interleave ser ms c1)"
    using f(1,2) by (rule makeApiCall_hit) (rule refl)
  with f(1,3)
  have "cache (interleave ser ms c1) ?k = Some (v, e) \<and>
        makeApiCall ser rq t ep ''POST'' d True (interleave ser ms c1)
          = (Inr v, interleave ser ms c1) \<and>
        ((\<forall>m\<in>set ms. \<not> stores ser ?k m) \<longrightarrow> v = env)"
    by simp
  then show "\<exists>v e. cache (interleave ser ms c1) ?k = Some (v, e) \<and>
               makeApiCall ser rq t ep ''POST'' d True (interleave ser ms c1)
                 = (Inr v, interleave ser ms c1) \<and>
               ((\<forall>m\<in>set ms. \<not> stores ser ?k m) \<longrightarrow> v = env)"
    by (intro exI)
next
  assume "makeApiCall ser rq now ep' method d' useCache c = (res, c') \<and> cache c' k = Some w"
  then have h1: "makeApiCall ser rq now ep' method d' useCache c = (res, c')"
    and h2: "cache c' k = Some w" by simp_all
  show "cache c k = Some w \<or>
        (method = ''POST'' \<and> useCache \<and> k = cacheKey ser method ep' d' \<and>
         issued c' \<noteq> issued c \<and> res = Inr (fst w))"
    by (rule makeApiCall_writes[OF h1 h2])
qed


theorem makeApiCall_cache_witness:
  "(let ser = (\<lambda>j :: json. ''{}'');
        rq = (\<lambda>(t :: nat) r. if req_url r = ''/host/health''
                               then Response (JArray [JNull]) (Some 7) 5
                               else Rejected (Some 404) ''Not Found'' 1);
        c0 = \<lparr>cache = Map.empty, rateLimit = None, issued = []\<rparr>;
        env = \<lparr>fr_endpoint = ''/host/health'', fr_timestamp = 5, fr_rateLimitRemaining = Some 7,
                fr_data = JArray [JNull], fr_count = Some 1, fr_key_counts = []\<rparr>;
        c1 = \<lparr>cache = [''POST:/host/health:{}'' \<mapsto> (env, 864000005)], rateLimit = Some 7,
               issued = [\<lparr>req_method = ''POST'', req_url = ''/host/health'', req_data = None\<rparr>]\<rparr>;
        other = \<lparr>call_endpoint = ''/host/lang'', call_method = ''POST'', call_data = None,
                  call_useCache = True\<rparr>;
        ms = [Before other 100, After other (Rejected (Some 404) ''Not Found'' 1) 101]
    in makeApiCall ser rq 0 ''/host/health'' ''POST'' None True c0 = (Inr env, c1) \<and>
       makeApiCall ser rq 864000005 ''/host/health'' ''POST'' None True (interleave ser ms c1)
         = (Inr env, interleave ser ms c1) \<and>
       cache c0 ''POST:/host/health:{}'' \<noteq> Some (env, 864000005) \<and>
       ''POST:/host/health:{}'' = cacheKey ser ''POST'' ''/host/health'' None \<and>
       issued c1 \<noteq> issued c0)"
proof -
  let ?ser = "\<lambda>j :: json. ''{}''"
  let ?rq = "\<lambda>(t :: nat) r. if req_url r = ''/host/health'' then Response (JArray [JNull]) (Some 7) 5
               else Rejected (Some 404) ''Not Found'' 1"
  let ?c0 = "\<lparr>cache = Map.empty, rateLimit = None, issued = []\<rparr>"
  let ?env = "\<lparr>fr_endpoint = ''/host/health'', fr_timestamp = 5, fr_rateLimitRemaining = Some 7,
           fr_data = JArray [JNull], fr_count = Some 1, fr_key_counts = []\<rparr>"
  let ?c1 = "\<lparr>cache = [''POST:/host/health:{}'' \<mapsto> (?env, 864000005)], rateLimit = Some 7,
          issued = [\<lparr>req_method = ''POST'', req_url = ''/host/health'', req_data = None\<rparr>]\<rparr>"
  let ?other = "\<lparr>call_endpoint = ''/host/lang'', call_method = ''POST'', call_data = None,
                  call_useCache = True\<rparr>"
  let ?ms = "[Before ?other 100, After ?other (Rejected (Some 404) ''Not Found'' 1) 101]"
  have 1: "makeApiCall ?ser ?rq 0 ''/host/health'' ''POST'' None True ?c0 = (Inr ?env, ?c1)"
    by (simp add: makeApiCall_def cacheKey_def cache_get_def cache_set_def
          formatResponse_def stdTTL_def Let_def)
  have 2: "issued ?c1 \<noteq> issued ?c0" by simp
  have 3: "\<forall>m\<in>set ?ms. moment_time m \<le> 864000005 \<and> 864000005 \<le> moment_time m + stdTTL * 1000"
    by (simp add: stdTTL_def)
  have 4: "864000005 \<le> 0 + duration (?rq 0 \<lparr>req_method = ''POST'', req_url = ''/host/health'',
              req_data = None\<rparr>) + stdTTL * 1000"
    by (simp add: stdTTL_def)
  have 5: "cache ?c1 ''POST:/host/health:{}'' = Some (?env, 864000005)" by simp
  have 6: "cache ?c0 ''POST:/host/health:{}'' \<noteq> Some (?env, 864000005)" by simp
  have 8: "\<forall>m\<in>set ?ms. \<not> stores ?ser (cacheKey ?ser ''POST'' ''/host/health'' None) m" by simp
  from makeApiCall_cache[THEN conjunct1, rule_format, OF conjI[OF 1 conjI[OF 2 conjI[OF 3 4]]]]
  obtain v where "makeApiCall ?ser ?rq 864000005 ''/host/health'' ''POST'' None True
       (interleave ?ser ?ms ?c1) = (Inr v, interleave ?ser ?ms ?c1)"
    and "(\<forall>m\<in>set ?ms. \<not> stores ?ser (cacheKey ?ser ''POST'' ''/host/health'' None) m) \<longrightarrow> v = ?env"
    by blast
  with 8 have hit: "makeApiCall ?ser ?rq 864000005 ''/host/health'' ''POST'' None True
       (interleave ?ser ?ms ?c1) = (Inr ?env, interleave ?ser ?ms ?c1)"
    by simp
  note wr = makeApiCall_cache[THEN conjunct2, rule_format, OF conjI[OF 1 5]]
  from wr 6 have 7: "''POST:/host/health:{}'' = cacheKey ?ser ''POST'' ''/host/health'' None"
    by blast
  from 1 hit 6 7 2 show ?thesis unfolding Let_def by (intro conjI)
qed


section \<open>Backlink pipeline: the targets\<close>

lemma jlt_trans: "jlt a b \<Longrightarrow> jlt b c \<Longrightarrow> jlt a c"
  by (cases a; cases b; cases c) auto

lemma jlt_not_NaN: "jlt a b \<Longrightarrow> \<not> isNaN a \<and> \<not> isNaN b"
  by (cases a; cases b) auto

lemma not_jlt_below: "\<not> jlt a b \<Longrightarrow> \<not> isNaN a \<Longrightarrow> \<not> isNaN b \<Longrightarrow> jlt a c \<Longrightarrow> jlt b c"
  by (cases a; cases b; cases c) auto

text \<open>The ranks kept in the map are never \<open>NaN\<close>.\<close>

lemma noteRank_no_NaN:
  "\<forall>u p. m u = Some p \<longrightarrow> \<not> isNaN p \<Longrightarrow> \<forall>u p. noteRank row m u = Some p \<longrightarrow> \<not> isNaN p"
  by (auto simp: noteRank_def Let_def dest: jlt_not_NaN split: option.splits if_splits)

lemma noteRank_keeps_strong:
  "\<exists>br. m u = Some br \<and> jlt br (Fin 5) \<Longrightarrow> \<exists>br. noteRank row m u = Some br \<and> jlt br (Fin 5)"
  by (auto simp: noteRank_def Let_def intro: jlt_trans split: option.splits if_splits)

lemma noteRank_strong_row:
  assumes "\<forall>u p. m u = Some p \<longrightarrow> \<not> isNaN p"
    and "kr_url row = Some u" "u \<noteq> []" "jlt (kr_rank row) (Fin 5)"
  shows "\<exists>br. noteRank row m u = Some br \<and> jlt br (Fin 5)"
proof (cases "m u")
  case None
  from assms(4) have "jlt (kr_rank row) PosInf" by (cases "kr_rank row") auto
  with None assms show ?thesis by (simp add: noteRank_def)
next
  case (Some p)
  with assms(1) have np: "\<not> isNaN p" by simp
  show ?thesis
  proof (cases "jlt (kr_rank row) p")
    case True
    with Some assms show ?thesis by (simp add: noteRank_def)
  next
    case False
    from assms(4) have "\<not> isNaN (kr_rank row)" by (simp add: jlt_not_NaN)
    from not_jlt_below[OF False this np assms(4)] have "jlt p (Fin 5)" .
    with False Some assms show ?thesis by (simp add: noteRank_def)
  qed
qed

lemma fold_noteRank_keeps_strong:
  "\<exists>br. m u = Some br \<and> jlt br (Fin 5) \<Longrightarrow>
   \<exists>br. fold noteRank rows m u = Some br \<and> jlt br (Fin 5)"
proof (induction rows arbitrary: m)
  case Nil
  then show ?case by simp
next
  case (Cons r rows)
  from Cons.IH[of "noteRank r m", OF noteRank_keeps_strong[of m u r, OF Cons.prems]] show ?case by simp
qed

lemma fold_noteRank_strong_row:
  assumes "\<forall>u p. m u = Some p \<longrightarrow> \<not> isNaN p"
    and "row \<in> set rows" "kr_url row = Some u" "u \<noteq> []" "jlt (kr_rank row) (Fin 5)"
  shows "\<exists>br. fold noteRank rows m u = Some br \<and> jlt br (Fin 5)"
  using assms(1,2)
proof (induction rows arbitrary: m)
  case Nil
  then show ?case by simp
next
  case (Cons r rows)
  show ?case
  proof (cases "r = row")
    case True
    with Cons.prems(1) assms(3-5) have "\<exists>br. noteRank r m u = Some br \<and> jlt br (Fin 5)"
      by (simp add: noteRank_strong_row)
    from fold_noteRank_keeps_strong[of "noteRank r m" u rows, OF this] show ?thesis by simp
  next
    case False
    with Cons.prems have "row \<in> set rows" by simp
    from Cons.IH[of "noteRank r m", OF noteRank_no_NaN[of m r, OF Cons.prems(1)] this] show ?thesis by simp
  qed
qed

lemma noteRank_strong_origin:
  "\<exists>br. noteRank row m u = Some br \<and> jlt br (Fin 5) \<Longrightarrow>
     (\<exists>br. m u = Some br \<and> jlt br (Fin 5)) \<or> (kr_url row = Some u \<and> jlt (kr_rank row) (Fin 5))"
  by (auto simp: noteRank_def Let_def split: option.splits if_splits)

lemma fold_noteRank_strong_origin:
  "\<exists>br. fold noteRank rows m u = Some br \<and> jlt br (Fin 5) \<Longrightarrow>
     (\<exists>br. m u = Some br \<and> jlt br (Fin 5)) \<or>
     (\<exists>row\<in>set rows. kr_url row = Some u \<and> jlt (kr_rank row) (Fin 5))"
proof (induction rows arbitrary: m)
  case Nil
  then show ?case by simp
next
  case (Cons r rows)
  from Cons.prems have "\<exists>br. fold noteRank rows (noteRank r m) u = Some br \<and> jlt br (Fin 5)"
    by simp
  from Cons.IH[of "noteRank r m", OF this] noteRank_strong_origin[of r m u] show ?case by auto
qed

text \<open>
  A page passes the rank test exactly when no keyword row of its URL has a rank below 5:
  the map holds the best rank of each URL.
\<close>

lemma rankOk_iff:
  assumes "cand_url c \<noteq> []"
  shows "rankOk (bestRankByUrl baseKw) c \<longleftrightarrow>
         \<not> (\<exists>row\<in>set baseKw. kr_url row = Some (cand_url c) \<and> jlt (kr_rank row) (Fin 5))"
proof
  assume ok: "rankOk (bestRankByUrl baseKw) c"
  show "\<not> (\<exists>row\<in>set baseKw. kr_url row = Some (cand_url c) \<and> jlt (kr_rank row) (Fin 5))"
  proof
    assume "\<exists>row\<in>set baseKw. kr_url row = Some (cand_url c) \<and> jlt (kr_rank row) (Fin 5)"
    then obtain row where r: "row \<in> set baseKw" "kr_url row = Some (cand_url c)"
      "jlt (kr_rank row) (Fin 5)"
      by blast
    have "\<forall>u p. (Map.empty :: string \<rightharpoonup> jsnum) u = Some p \<longrightarrow> \<not> isNaN p" by simp
    from fold_noteRank_strong_row[of Map.empty row baseKw "cand_url c", OF this r(1,2) assms r(3)]
    have "\<exists>br. bestRankByUrl baseKw (cand_url c) = Some br \<and> jlt br (Fin 5)"
      by (simp add: bestRankByUrl_def)
    with ok show False by (auto simp: rankOk_def)
  qed
next
  assume n: "\<not> (\<exists>row\<in>set baseKw. kr_url row = Some (cand_url c) \<and> jlt (kr_rank row) (Fin 5))"
  show "rankOk (bestRankByUrl baseKw) c"
  proof (rule ccontr)
    assume "\<not> rankOk (bestRankByUrl baseKw) c"
    then have "\<exists>br. fold noteRank baseKw Map.empty (cand_url c) = Some br \<and> jlt br (Fin 5)"
      by (simp add: rankOk_def bestRankByUrl_def split: option.splits)
    from fold_noteRank_strong_origin[of baseKw Map.empty "cand_url c", OF this] n show False by simp
  qed
qed

lemma bySvPv_le:
  "bySvPv a b \<le> 0 \<longleftrightarrow> cand_sv b < cand_sv a \<or> (cand_sv a = cand_sv b \<and> cand_pv b \<le> cand_pv a)"
  by (auto simp: bySvPv_def orElse_def)

lemma sorted_filteredCandidates:
  "sorted_wrt (\<lambda>a b. cand_sv b < cand_sv a \<or> (cand_sv a = cand_sv b \<and> cand_pv b \<le> cand_pv a))
     (filteredCandidates baseKw internalPages)"
proof -
  have "sorted_wrt (\<lambda>a b. bySvPv a b \<le> 0) (filteredCandidates baseKw internalPages)"
    unfolding filteredCandidates_def
    by (rule sorted_sort_js) (auto simp: bySvPv_le)
  then show ?thesis by (simp add: bySvPv_le)
qed

lemma candidates_url:
  "c \<in> set (candidates internalPages) \<Longrightarrow>
     cand_url c \<noteq> [] \<and> (\<exists>p\<in>set internalPages. c = toCandidate p)"
  by (auto simp: candidates_def)

lemma mset_filteredCandidates:
  "mset (filteredCandidates baseKw internalPages) =
     filter_mset (\<lambda>c. \<not> (\<exists>row\<in>set baseKw. kr_url row = Some (cand_url c) \<and> jlt (kr_rank row) (Fin 5)))
       (mset (candidates internalPages))"
proof -
  have "filter_mset (rankOk (bestRankByUrl baseKw)) (mset (candidates internalPages)) =
    filter_mset (\<lambda>c. \<not> (\<exists>row\<in>set baseKw. kr_url row = Some (cand_url c) \<and> jlt (kr_rank row) (Fin 5)))
       (mset (candidates internalPages))"
    by (rule filter_mset_cong) (auto simp: rankOk_iff dest: candidates_url)
  then show ?thesis by (simp add: filteredCandidates_def)
qed

text \<open>
  C7, as stated, fails: when every internal page has a keyword ranked below 5, the
  fallback takes the targets among all the pages. Here the only page has a keyword at
  rank 1 and is selected.
\<close>

theorem selectTargets_fallback_takes_strong_page:
  "selectTargets []
     [\<lparr>kr_keyword = ''seo audit'', kr_url = Some ''https://example.org/a'', kr_rank = Fin 1\<rparr>]
     [\<lparr>pg_url = Some ''https://example.org/a'', pg_link = None, pg_target = None,
       pg_semanticValue = Some 40, pg_sv = None, pg_pageValue = Some 30, pg_pv = None\<rparr>] 18
     = [''https://example.org/a''] \<and>
   bestRankByUrl
     [\<lparr>kr_keyword = ''seo audit'', kr_url = Some ''https://example.org/a'', kr_rank = Fin 1\<rparr>]
     ''https://example.org/a'' = Some (Fin 1) \<and>
   jlt (Fin 1) (Fin 5)"
  by (simp add: selectTargets_def filteredCandidates_def candidates_def toCandidate_def nullish_def
        orZero_def rankOk_def bestRankByUrl_def noteRank_def sort_js_def slice0_def uniq_def Let_def)

text \<open>
  C7, amended. When explicit targets are not supplied: the internal pages with a URL whose
  keyword rows all have a rank that is not below 5 are sorted by semantic value descending,
  then popularity value descending, and the targets are the first \<open>maxTargets\<close> distinct
  URLs of that list; each of them is the URL of an internal page and has no keyword ranked
  below 5. This holds whenever that selection is not empty. When it is empty, the targets
  are the first \<open>maxTargets\<close> distinct URLs of all the internal pages that have a URL,
  sorted by semantic value descending.
\<close>

theorem selectTargets_auto:
  "(slice0 maxTargets (uniq (map cand_url (filteredCandidates baseKw internalPages))) \<noteq> []
      \<longrightarrow> selectTargets [] baseKw internalPages maxTargets =
            slice0 maxTargets (uniq (map cand_url (filteredCandidates baseKw internalPages))) \<and>
          (\<forall>t\<in>set (selectTargets [] baseKw internalPages maxTargets).
             (\<exists>p\<in>set internalPages. cand_url (toCandidate p) = t) \<and>
             \<not> (\<exists>row\<in>set baseKw. kr_url row = Some t \<and> jlt (kr_rank row) (Fin 5)))) \<and>
   (slice0 maxTargets (uniq (map cand_url (filteredCandidates baseKw internalPages))) = []
      \<longrightarrow> selectTargets [] baseKw internalPages maxTargets =
            slice0 maxTargets (uniq (map cand_url (sort_js bySv (candidates internalPages))))) \<and>
   mset (filteredCandidates baseKw internalPages) =
     filter_mset (\<lambda>c. \<not> (\<exists>row\<in>set baseKw. kr_url row = Some (cand_url c) \<and> jlt (kr_rank row) (Fin 5)))
       (mset (candidates internalPages)) \<and>
   sorted_wrt (\<lambda>a b. cand_sv b < cand_sv a \<or> (cand_sv a = cand_sv b \<and> cand_pv b \<le> cand_pv a))
     (filteredCandidates baseKw internalPages)"
proof (intro conjI impI)
  let ?primary = "slice0 maxTargets (uniq (map cand_url (filteredCandidates baseKw internalPages)))"
  {
    assume ne: "?primary \<noteq> []"
    then show eq: "selectTargets [] baseKw internalPages maxTargets = ?primary"
      by (simp add: selectTargets_def Let_def)
    show "\<forall>t\<in>set (selectTargets [] baseKw internalPages maxTargets).
             (\<exists>p\<in>set internalPages. cand_url (toCandidate p) = t) \<and>
             \<not> (\<exists>row\<in>set baseKw. kr_url row = Some t \<and> jlt (kr_rank row) (Fin 5))"
    proof
      fix t assume "t \<in> set (selectTargets [] baseKw internalPages maxTargets)"
      with eq have "t \<in> set ?primary" by simp
      then have "t \<in> set (uniq (map cand_url (filteredCandidates baseKw internalPages)))"
        using set_slice0[of maxTargets "uniq (map cand_url (filteredCandidates baseKw internalPages))"]
        by (rule_tac subsetD)
      then have "t \<in> cand_url ` set (filter (rankOk (bestRankByUrl baseKw)) (candidates internalPages))"
        by (simp add: filteredCandidates_def)
      then obtain c where c: "c \<in> set (candidates internalPages)" "rankOk (bestRankByUrl baseKw) c"
        "t = cand_url c"
        by auto
      from candidates_url[OF c(1)] have u: "cand_url c \<noteq> []"
        and p: "\<exists>p\<in>set internalPages. c = toCandidate p" by simp_all
      from p c(3) have "\<exists>p\<in>set internalPages. cand_url (toCandidate p) = t" by auto
      moreover from rankOk_iff[OF u, of baseKw] c(2,3)
      have "\<not> (\<exists>row\<in>set baseKw. kr_url row = Some t \<and> jlt (kr_rank row) (Fin 5))" by simp
      ultimately show "(\<exists>p\<in>set internalPages. cand_url (toCandidate p) = t) \<and>
             \<not> (\<exists>row\<in>set baseKw. kr_url row = Some t \<and> jlt (kr_rank row) (Fin 5))"
        by (rule conjI)
    qed
  }
  {
    assume e: "?primary = []"
    show "selectTargets [] baseKw internalPages maxTargets =
            slice0 maxTargets (uniq (map cand_url (sort_js bySv (candidates internalPages))))"
    proof (cases "candidates internalPages = []")
      case True
      have "slice0 maxTargets (uniq (map cand_url (sort_js bySv ([] :: candidate list)))) = []"
        by (simp add: sort_js_def uniq_def slice0_def)
      with True e show ?thesis by (simp add: selectTargets_def Let_def)
    next
      case False
      with e show ?thesis by (simp add: selectTargets_def Let_def)
    qed
  }
  show "mset (filteredCandidates baseKw internalPages) =
     filter_mset (\<lambda>c. \<not> (\<exists>row\<in>set baseKw. kr_url row = Some (cand_url c) \<and> jlt (kr_rank row) (Fin 5)))
       (mset (candidates internalPages))"
    by (rule mset_filteredCandidates)
  show "sorted_wrt (\<lambda>a b. cand_sv b < cand_sv a \<or> (cand_sv a = cand_sv b \<and> cand_pv b \<le> cand_pv a))
     (filteredCandidates baseKw internalPages)"
    by (rule sorted_filteredCandidates)
qed


theorem selectTargets_auto_witness:
  "selectTargets []
     [\<lparr>kr_keyword = ''seo audit'', kr_url = Some ''/a'', kr_rank = Fin 1\<rparr>,
      \<lparr>kr_keyword = ''seo tools'', kr_url = Some ''/b'', kr_rank = Fin 7\<rparr>]
     [\<lparr>pg_url = Some ''/a'', pg_link = None, pg_target = None,
       pg_semanticValue = Some 40, pg_sv = None, pg_pageValue = Some 30, pg_pv = None\<rparr>,
      \<lparr>pg_url = Some ''/b'', pg_link = None, pg_target = None,
       pg_semanticValue = Some 50, pg_sv = None, pg_pageValue = Some 10, pg_pv = None\<rparr>,
      \<lparr>pg_url = None, pg_link = Some ''/c'', pg_target = None,
       pg_semanticValue = None, pg_sv = Some 50, pg_pageValue = None, pg_pv = Some 20\<rparr>] 18
   = [''/c'', ''/b'']"
proof -
  let ?kw = "[\<lparr>kr_keyword = ''seo audit'', kr_url = Some ''/a'', kr_rank = Fin 1\<rparr>,
      \<lparr>kr_keyword = ''seo tools'', kr_url = Some ''/b'', kr_rank = Fin 7\<rparr>]"
  let ?pages = "[\<lparr>pg_url = Some ''/a'', pg_link = None, pg_target = None,
       pg_semanticValue = Some 40, pg_sv = None, pg_pageValue = Some 30, pg_pv = None\<rparr>,
      \<lparr>pg_url = Some ''/b'', pg_link = None, pg_target = None,
       pg_semanticValue = Some 50, pg_sv = None, pg_pageValue = Some 10, pg_pv = None\<rparr>,
      \<lparr>pg_url = None, pg_link = Some ''/c'', pg_target = None,
       pg_semanticValue = None, pg_sv = Some 50, pg_pageValue = None, pg_pv = Some 20\<rparr>]"
  have p: "slice0 18 (uniq (map cand_url (filteredCandidates ?kw ?pages))) = [''/c'', ''/b'']"
    by (simp add: filteredCandidates_def candidates_def toCandidate_def nullish_def orZero_def
          rankOk_def bestRankByUrl_def noteRank_def sort_js_def slice0_def uniq_def bySvPv_def
          orElse_def Let_def)
  then have ne: "slice0 18 (uniq (map cand_url (filteredCandidates ?kw ?pages))) \<noteq> []"
    by simp
  from selectTargets_auto[of 18 ?kw ?pages, THEN conjunct1, rule_format, OF ne, THEN conjunct1] p
  show ?thesis by simp
qed

section \<open>Backlink pipeline: the exclusion of referring hosts\<close>

lemma set_upsert: "set (upsert k v m) \<subseteq> insert (k, v) (set m)"
  by (induction m) (auto split: if_splits)

lemma fold_upsert_values:
  "snd ` set (fold (\<lambda>p m. upsert (src_url p) p m) sources m0) \<subseteq> set sources \<union> snd ` set m0"
proof (induction sources arbitrary: m0)
  case Nil
  then show ?case by simp
next
  case (Cons p ps)
  have "snd ` set (upsert (src_url p) p m0) \<subseteq> insert p (snd ` set m0)"
    using set_upsert[of "src_url p" p m0] by auto
  with Cons.IH[of "upsert (src_url p) p m0"] show ?case by auto
qed

lemma set_dedupByUrl: "set (dedupByUrl sources) \<subseteq> set sources"
  using fold_upsert_values[of sources "[]"] by (simp add: dedupByUrl_def)

lemma uniqueSources_member:
  assumes "p \<in> set (uniqueSources refRows sources)"
  shows "p \<in> set sources \<and> src_host p \<notin> ourRefHosts refRows \<and>
         (\<exists>u. src_url p = Some u \<and> u \<noteq> [])"
proof -
  from assms have d: "p \<in> set (dedupByUrl sources)"
    and h: "src_host p \<notin> ourRefHosts refRows"
    and u: "(case src_url p of None \<Rightarrow> False | Some u \<Rightarrow> u \<noteq> [])"
    by (simp_all add: uniqueSources_def)
  from d set_dedupByUrl have "p \<in> set sources" by blast
  moreover from u have "\<exists>u. src_url p = Some u \<and> u \<noteq> []" by (cases "src_url p") simp_all
  ultimately show ?thesis using h by simp
qed

lemma scorePair_member:
  assumes "x \<in> set (scorePair getFi fiThreshold target p)" "src_url p = Some u"
  shows "prospectHost x = src_host p \<and> prospectUrl x = u \<and> targetUrl x = target \<and>
         fiThreshold \<le> inducedStrength x"
  using assms by (auto simp: scorePair_def Let_def split: prod.splits if_splits)

lemma scoreTarget_member:
  assumes "x \<in> set (scoreTarget getFi fiThreshold maxC completion usources target)"
    and "\<forall>t xs. set (completion t xs) \<subseteq> set xs"
  shows "\<exists>p\<in>set usources. x \<in> set (scorePair getFi fiThreshold target p)"
proof -
  let ?pre = "slice0 maxC (sort_js bySource usources)"
  from assms(1) obtain p where p: "p \<in> set (completion target ?pre)"
    "x \<in> set (scorePair getFi fiThreshold target p)"
    by (auto simp: scoreTarget_def Let_def)
  from assms(2) have "set (completion target ?pre) \<subseteq> set ?pre" by simp
  with p(1) have "p \<in> set ?pre" by (rule_tac subsetD)
  with set_slice0[of maxC "sort_js bySource usources"] have "p \<in> set usources" by auto
  with p(2) show ?thesis by (rule_tac bexI)
qed

text \<open>
  C6. Whatever the induced strengths, the threshold, the limits and the order in which the
  scoring units complete (any order that completes nothing but the preselected sources):
  no opportunity of the final list has a host of the exclusion set. Each opportunity is
  a collected source, with its URL and its host, paired with one of the targets, at an
  induced strength at or above \<open>fiThreshold\<close>.
\<close>

theorem opportunities_exclude_referring_hosts:
  "(\<forall>t xs. set (completion t xs) \<subseteq> set xs) \<longrightarrow>
   (\<forall>x\<in>set (opportunities getFi fiThreshold maxCandidatesPerTarget topLimit completion
                refRows sources targets).
      prospectHost x \<notin> ourRefHosts refRows \<and>
      (\<exists>p\<in>set sources. src_host p = prospectHost x \<and> src_url p = Some (prospectUrl x)) \<and>
      targetUrl x \<in> set targets \<and> fiThreshold \<le> inducedStrength x)"
proof (intro impI ballI)
  fix x
  assume c: "\<forall>t xs. set (completion t xs) \<subseteq> set xs"
  assume "x \<in> set (opportunities getFi fiThreshold maxCandidatesPerTarget topLimit completion
                refRows sources targets)"
  then have "x \<in> set (slice0 topLimit (sort_js byOpp
      (concat (map (scoreTarget getFi fiThreshold maxCandidatesPerTarget completion
                      (uniqueSources refRows sources)) targets))))"
    by (simp add: opportunities_def Let_def)
  with set_slice0 have "x \<in> set (sort_js byOpp
      (concat (map (scoreTarget getFi fiThreshold maxCandidatesPerTarget completion
                      (uniqueSources refRows sources)) targets)))"
    by (rule_tac subsetD)
  then obtain target where t: "target \<in> set targets"
    "x \<in> set (scoreTarget getFi fiThreshold maxCandidatesPerTarget completion
                 (uniqueSources refRows sources) target)"
    by auto
  from scoreTarget_member[OF t(2) c] obtain p
    where p: "p \<in> set (uniqueSources refRows sources)"
      "x \<in> set (scorePair getFi fiThreshold target p)"
    by blast
  from uniqueSources_member[OF p(1)] obtain u
    where s: "p \<in> set sources" "src_host p \<notin> ourRefHosts refRows" "src_url p = Some u"
    by blast
  from scorePair_member[OF p(2) s(3)]
  have f: "prospectHost x = src_host p" "prospectUrl x = u" "targetUrl x = target"
    "fiThreshold \<le> inducedStrength x"
    by simp_all
  from s(1,3) f(1,2) have "\<exists>p\<in>set sources. src_host p = prospectHost x \<and>
      src_url p = Some (prospectUrl x)"
    by auto
  with s(2) f t(1)
  show "prospectHost x \<notin> ourRefHosts refRows \<and>
      (\<exists>p\<in>set sources. src_host p = prospectHost x \<and> src_url p = Some (prospectUrl x)) \<and>
      targetUrl x \<in> set targets \<and> fiThreshold \<le> inducedStrength x"
    by simp
qed

theorem opportunities_exclude_referring_hosts_witness:
  "map (\<lambda>x. (prospectHost x, prospectUrl x, inducedStrength x))
     (opportunities (\<lambda>s t. (50, None)) 10 80 25 (\<lambda>t xs. rev xs)
        [\<lparr>rr_host = Some ''linked.example'', rr_domain = None, rr_name = None\<rparr>]
        [\<lparr>src_url = Some ''https://linked.example/p'', src_host = ''linked.example'',
          src_semanticValue = 60, src_pageValue = 40, src_babbarAuthorityScore = 30,
          src_spotfinderScore = 1\<rparr>,
         \<lparr>src_url = Some ''https://fresh.example/q'', src_host = ''fresh.example'',
          src_semanticValue = 20, src_pageValue = 10, src_babbarAuthorityScore = 5,
          src_spotfinderScore = 1\<rparr>]
        [''https://example.org/a''])
   = [(''fresh.example'', ''https://fresh.example/q'', 50)]"
  using opportunities_exclude_referring_hosts
    [of "\<lambda>t xs. rev xs" "\<lambda>s t. (50, None)" 10 80 25
        "[\<lparr>rr_host = Some ''linked.example'', rr_domain = None, rr_name = None\<rparr>]"
        "[\<lparr>src_url = Some ''https://linked.example/p'', src_host = ''linked.example'',
          src_semanticValue = 60, src_pageValue = 40, src_babbarAuthorityScore = 30,
          src_spotfinderScore = 1\<rparr>,
         \<lparr>src_url = Some ''https://fresh.example/q'', src_host = ''fresh.example'',
          src_semanticValue = 20, src_pageValue = 10, src_babbarAuthorityScore = 5,
          src_spotfinderScore = 1\<rparr>]"
        "[''https://example.org/a'']"]
  by (simp add: opportunities_def uniqueSources_def dedupByUrl_def ourRefHosts_def orStr_def
        scoreTarget_def scorePair_def sort_js_def slice0_def Let_def)

section \<open>The concurrency limiter: the bound, the order, completion\<close>





























text \<open>
  The bound rests on the batch. A call that arrives between the release of a waiter and the
  continuation of that waiter starts at once, and the waiter starts as well: with
  \<open>concurrency = 1\<close>, unit 0 runs and unit 1 waits; unit 0 settles, which releases unit
  1; unit 2 is submitted, finds \<open>active = 0\<close> and starts; then unit 1 continues. The
  handler never submits in this way.
\<close>

lemma call_between_release_and_continuation:
  "map_option (\<lambda>s. (active s, running s))
     (exec 1 [Call 0, Call 1, Settle 0, Call 2, Resume] pLimit) = Some (2, [2, 1])"
  by (simp add: pLimit_def start_def next_js_def)

end
